theory Spec2Isabelle
  imports Complex_Main "HOL-Library.Multiset" "HOL-Library.Log_Nat"
begin

section \<open>Pool share queries of the Osmosis frontend\<close>

text \<open>
  A shallow embedding of \<^verbatim>\<open>packages/stores/src/queries/pool-share/index.ts\<close>, the class
  \<^verbatim>\<open>ObservableQueryGammPoolShare\<close>. Every method of the class is a \<^verbatim>\<open>computedFn\<close>: a
  memoised pure function of its arguments and of the five query stores handed to the
  constructor. The stores are modelled as one record of read-only views, which every
  function takes as its first argument.
\<close>

subsection \<open>Strings\<close>

text \<open>
  \<^verbatim>\<open>String.prototype.startsWith(p)\<close> (at position 0) and \<^verbatim>\<open>String.prototype.replace(p, r)\<close>
  with a string pattern: only the first occurrence of \<open>p\<close> is replaced, the empty pattern
  occurs at position 0. The source only replaces by the empty string, so the
  \<^verbatim>\<open>$\<close>-patterns of a replacement string play no role.
\<close>

definition startsWith :: "string \<Rightarrow> string \<Rightarrow> bool" where
  "startsWith s p = (take (length p) s = p)"

fun replace :: "string \<Rightarrow> string \<Rightarrow> string \<Rightarrow> string" where
  "replace [] p r = (if p = [] then r else [])"
| "replace (c # cs) p r =
     (if startsWith (c # cs) p then r @ drop (length p) (c # cs)
      else c # replace cs p r)"

subsection \<open>Numbers of the unit library\<close>

text \<open>
  Modelled from the spec: the value types \<^verbatim>\<open>Dec\<close>, \<^verbatim>\<open>Int\<close>, \<^verbatim>\<open>IntPretty\<close>, \<^verbatim>\<open>CoinPretty\<close>,
  \<^verbatim>\<open>RatePretty\<close> and \<^verbatim>\<open>PricePretty\<close> of the package \<^verbatim>\<open>@keplr-wallet/unit\<close>, which is not
  among the sources. The specification takes them as opaque values with
  arbitrary-precision arithmetic, a ratio or a price carrying a ready flag; so a decimal
  is a rational number here. Of the library the model keeps what the class can observe:
  the decimal value behind \<^verbatim>\<open>toDec()\<close>, the ready flag behind \<^verbatim>\<open>isReady\<close> and \<^verbatim>\<open>ready(b)\<close>,
  the currency of a coin, and the exception of a division by zero, which is an error
  value. The display options (\<^verbatim>\<open>trim\<close>, \<^verbatim>\<open>shrink\<close>, \<^verbatim>\<open>maxDecimals\<close>) change the printed
  text only and are left out.
\<close>

type_synonym Dec = rat

datatype error = DivisionByZero

definition Dec_quo :: "Dec \<Rightarrow> Dec \<Rightarrow> error + Dec" where
  "Dec_quo a b = (if b = 0 then Inl DivisionByZero else Inr (a / b))"

record IntPretty =
  dec :: Dec
  isReady :: bool

text \<open>A new \<^verbatim>\<open>IntPretty\<close> is ready; arithmetic keeps the options of the receiver.\<close>

definition IntPretty_new :: "Dec \<Rightarrow> IntPretty" where
  "IntPretty_new d = \<lparr>dec = d, isReady = True\<rparr>"

definition ready :: "IntPretty \<Rightarrow> bool \<Rightarrow> IntPretty" where
  "ready p b = p\<lparr>isReady := b\<rparr>"

definition IntPretty_add :: "IntPretty \<Rightarrow> Dec \<Rightarrow> IntPretty" where
  "IntPretty_add p d = p\<lparr>dec := dec p + d\<rparr>"

definition IntPretty_mul :: "IntPretty \<Rightarrow> Dec \<Rightarrow> IntPretty" where
  "IntPretty_mul p d = p\<lparr>dec := dec p * d\<rparr>"

definition IntPretty_quo :: "IntPretty \<Rightarrow> Dec \<Rightarrow> error + IntPretty" where
  "IntPretty_quo p d =
     (case Dec_quo (dec p) d of Inl e \<Rightarrow> Inl e | Inr v \<Rightarrow> Inr (p\<lparr>dec := v\<rparr>))"

definition moveDecimalPointLeft :: "IntPretty \<Rightarrow> nat \<Rightarrow> IntPretty" where
  "moveDecimalPointLeft p n = p\<lparr>dec := dec p / 10 ^ n\<rparr>"

text \<open>
  A \<^verbatim>\<open>RatePretty\<close> wraps one \<^verbatim>\<open>IntPretty\<close>; its constructor takes a number, an \<^verbatim>\<open>Int\<close>, a
  \<^verbatim>\<open>Dec\<close> or any object with \<^verbatim>\<open>toDec()\<close> and reads the decimal value only.
\<close>

type_synonym RatePretty = IntPretty

definition RatePretty_new :: "Dec \<Rightarrow> RatePretty" where
  "RatePretty_new d = IntPretty_new d"

record Currency =
  coinDenom :: string
  coinMinimalDenom :: string
  coinDecimals :: nat

record CoinPretty =
  currency :: Currency
  intPretty :: IntPretty

text \<open>
  \<^verbatim>\<open>new CoinPretty(currency, amount)\<close> takes the amount in the minimal denomination;
  \<^verbatim>\<open>toDec()\<close> reports it in the display unit, \<open>coinDecimals\<close> places to the left.
\<close>

definition CoinPretty_new :: "Currency \<Rightarrow> Dec \<Rightarrow> CoinPretty" where
  "CoinPretty_new c a = \<lparr>currency = c, intPretty = IntPretty_new (a / 10 ^ coinDecimals c)\<rparr>"

definition toDec :: "CoinPretty \<Rightarrow> Dec" where
  "toDec c = dec (intPretty c)"

text \<open>
  \<^verbatim>\<open>CoinPretty.add\<close> of another coin: a coin of a different minimal denomination is not
  added, the receiver comes back unchanged.
\<close>

definition CoinPretty_add :: "CoinPretty \<Rightarrow> CoinPretty \<Rightarrow> CoinPretty" where
  "CoinPretty_add c t =
     (if coinMinimalDenom (currency c) \<noteq> coinMinimalDenom (currency t) then c
      else c\<lparr>intPretty := IntPretty_add (intPretty c) (toDec t)\<rparr>)"

definition CoinPretty_mul :: "CoinPretty \<Rightarrow> Dec \<Rightarrow> CoinPretty" where
  "CoinPretty_mul c d = c\<lparr>intPretty := IntPretty_mul (intPretty c) d\<rparr>"

definition CoinPretty_quo :: "CoinPretty \<Rightarrow> Dec \<Rightarrow> error + CoinPretty" where
  "CoinPretty_quo c d =
     (case IntPretty_quo (intPretty c) d of
        Inl e \<Rightarrow> Inl e
      | Inr v \<Rightarrow> Inr (c\<lparr>intPretty := v\<rparr>))"

definition CoinPretty_moveDecimalPointLeft :: "CoinPretty \<Rightarrow> nat \<Rightarrow> CoinPretty" where
  "CoinPretty_moveDecimalPointLeft c n = c\<lparr>intPretty := moveDecimalPointLeft (intPretty c) n\<rparr>"

record FiatCurrency =
  fiat_currency :: string
  fiat_symbol :: string
  fiat_maxDecimals :: nat
  fiat_locale :: string

record PricePretty =
  fiatCurrency :: FiatCurrency
  price :: IntPretty

definition PricePretty_new :: "FiatCurrency \<Rightarrow> Dec \<Rightarrow> PricePretty" where
  "PricePretty_new f d = \<lparr>fiatCurrency = f, price = IntPretty_new d\<rparr>"

definition PricePretty_ready :: "PricePretty \<Rightarrow> bool \<Rightarrow> PricePretty" where
  "PricePretty_ready p b = p\<lparr>price := ready (price p) b\<rparr>"

definition PricePretty_mul :: "PricePretty \<Rightarrow> Dec \<Rightarrow> PricePretty" where
  "PricePretty_mul p d = p\<lparr>price := IntPretty_mul (price p) d\<rparr>"

subsection \<open>The query stores\<close>

text \<open>
  The stores are handed to the constructor and their classes are not among the sources;
  each is taken as a parameter, one field of the record \<open>Queries\<close> for every view the
  class reads: the pool that \<^verbatim>\<open>queryPools.getPool(poolId)\<close> returns, if any, and for a
  bech32 address
  \<^verbatim>\<open>queryBalances.getQueryBech32Address(a).positiveBalances\<close>,
  \<^verbatim>\<open>queryBalances.getQueryBech32Address(a).getBalanceFromCurrency(c)\<close>,
  \<^verbatim>\<open>queryLockedCoins.get(a).lockedCoins\<close> and \<^verbatim>\<open>queryUnlockingCoins.get(a).unlockingCoins\<close>.
  A pool has the fields the class reads.
\<close>

record PoolAsset =
  weight :: IntPretty
  amount :: CoinPretty

record Pool =
  totalShare :: CoinPretty
  poolAssets :: "PoolAsset list"
  totalWeight :: IntPretty

record Queries =
  getPool :: "string \<Rightarrow> Pool option"
  positiveBalances :: "string \<Rightarrow> CoinPretty list"
  getBalanceFromCurrency :: "string \<Rightarrow> Currency \<Rightarrow> CoinPretty"
  lockedCoins :: "string \<Rightarrow> CoinPretty list"
  unlockingCoins :: "string \<Rightarrow> CoinPretty list"

subsection \<open>Share currency and share amounts\<close>

definition getShareCurrency :: "string \<Rightarrow> Currency" where
  "getShareCurrency poolId =
     \<lparr>coinDenom = ''GAMM/'' @ poolId,
      coinMinimalDenom = ''gamm/pool/'' @ poolId,
      coinDecimals = 18\<rparr>"

definition getLockedGammShare :: "Queries \<Rightarrow> string \<Rightarrow> string \<Rightarrow> CoinPretty" where
  "getLockedGammShare q bech32Address poolId =
     (let currency' = getShareCurrency poolId;
          locked = find (\<lambda>coin. coinMinimalDenom (currency coin) = coinMinimalDenom currency')
                     (lockedCoins q bech32Address)
      in case locked of
           Some coin \<Rightarrow> coin
         | None \<Rightarrow> CoinPretty_new currency' 0)"

definition getUnlockingGammShare :: "Queries \<Rightarrow> string \<Rightarrow> string \<Rightarrow> CoinPretty" where
  "getUnlockingGammShare q bech32Address poolId =
     (let currency' = getShareCurrency poolId;
          locked = find (\<lambda>coin. coinMinimalDenom (currency coin) = coinMinimalDenom currency')
                     (unlockingCoins q bech32Address)
      in case locked of
           Some coin \<Rightarrow> coin
         | None \<Rightarrow> CoinPretty_new currency' 0)"

definition getAvailableGammShare :: "Queries \<Rightarrow> string \<Rightarrow> string \<Rightarrow> CoinPretty" where
  "getAvailableGammShare q bech32Address poolId =
     (let currency' = getShareCurrency poolId
      in getBalanceFromCurrency q bech32Address currency')"

definition getAllGammShare :: "Queries \<Rightarrow> string \<Rightarrow> string \<Rightarrow> CoinPretty" where
  "getAllGammShare q bech32Address poolId =
     (let available = getAvailableGammShare q bech32Address poolId;
          locked = getLockedGammShare q bech32Address poolId
      in CoinPretty_add available locked)"

subsection \<open>Ratios and values\<close>

definition getLockedGammShareRatio :: "Queries \<Rightarrow> string \<Rightarrow> string \<Rightarrow> error + RatePretty" where
  "getLockedGammShareRatio q bech32Address poolId =
     (case getPool q poolId of
        None \<Rightarrow> Inr (ready (RatePretty_new 0) False)
      | Some pool \<Rightarrow>
          (let totalShare' = totalShare pool in
           if toDec totalShare' = 0 then Inr (RatePretty_new 0)
           else
             (let share = getLockedGammShare q bech32Address poolId in
              case CoinPretty_quo share (toDec totalShare') of
                Inl e \<Rightarrow> Inl e
              | Inr r \<Rightarrow> Inr (RatePretty_new (toDec (CoinPretty_moveDecimalPointLeft r 2))))))"

definition getLockedGammShareValue ::
  "Queries \<Rightarrow> string \<Rightarrow> string \<Rightarrow> PricePretty \<Rightarrow> FiatCurrency \<Rightarrow> error + PricePretty" where
  "getLockedGammShareValue q bech32Address poolId poolLiqudity fiatCurrency' =
     (case getPool q poolId of
        None \<Rightarrow> Inr (PricePretty_ready (PricePretty_new fiatCurrency' 0) False)
      | Some pool \<Rightarrow>
          (let totalShare' = totalShare pool in
           if toDec totalShare' = 0 then Inr (PricePretty_new fiatCurrency' 0)
           else
             (let share = getLockedGammShare q bech32Address poolId in
              case CoinPretty_quo share (toDec totalShare') of
                Inl e \<Rightarrow> Inl e
              | Inr r \<Rightarrow> Inr (PricePretty_mul poolLiqudity (dec (IntPretty_new (toDec r)))))))"

definition getAvailableGammShareRatio :: "Queries \<Rightarrow> string \<Rightarrow> string \<Rightarrow> error + RatePretty" where
  "getAvailableGammShareRatio q bech32Address poolId =
     (case getPool q poolId of
        None \<Rightarrow> Inr (ready (RatePretty_new 0) False)
      | Some pool \<Rightarrow>
          (let totalShare' = totalShare pool in
           if toDec totalShare' = 0 then Inr (RatePretty_new 0)
           else
             (case CoinPretty_quo (getAvailableGammShare q bech32Address poolId) (toDec totalShare') of
                Inl e \<Rightarrow> Inl e
              | Inr r \<Rightarrow> Inr (RatePretty_new (toDec r)))))"

definition getAllGammShareRatio :: "Queries \<Rightarrow> string \<Rightarrow> string \<Rightarrow> error + RatePretty" where
  "getAllGammShareRatio q bech32Address poolId =
     (case getPool q poolId of
        None \<Rightarrow> Inr (ready (RatePretty_new 0) False)
      | Some pool \<Rightarrow>
          (let share = getAllGammShare q bech32Address poolId;
               totalShare' = totalShare pool
           in if toDec totalShare' = 0 then Inr (RatePretty_new (toDec totalShare'))
              else
                (case CoinPretty_quo share (toDec totalShare') of
                   Inl e \<Rightarrow> Inl e
                 | Inr r \<Rightarrow> Inr (RatePretty_new (toDec r)))))"

text \<open>
  \<^verbatim>\<open>getShareAssets\<close> maps over the assets of the pool; a division by a zero total weight
  throws out of the map, so the first failing asset decides the result.
\<close>

record ShareAsset =
  ratio :: RatePretty
  asset :: CoinPretty

fun mapAssets :: "('a \<Rightarrow> error + 'b) \<Rightarrow> 'a list \<Rightarrow> error + 'b list" where
  "mapAssets f [] = Inr []"
| "mapAssets f (x # xs) =
     (case f x of
        Inl e \<Rightarrow> Inl e
      | Inr y \<Rightarrow> (case mapAssets f xs of Inl e \<Rightarrow> Inl e | Inr ys \<Rightarrow> Inr (y # ys)))"

definition getShareAssets :: "Queries \<Rightarrow> string \<Rightarrow> string \<Rightarrow> error + ShareAsset list" where
  "getShareAssets q bech32Address poolId =
     (case getAllGammShareRatio q bech32Address poolId of
        Inl e \<Rightarrow> Inl e
      | Inr shareRatio \<Rightarrow>
          (case getPool q poolId of
             None \<Rightarrow> Inr []
           | Some pool \<Rightarrow>
               if \<not> isReady shareRatio then Inr []
               else mapAssets
                 (\<lambda>a. case IntPretty_quo (weight a) (dec (totalWeight pool)) of
                        Inl e \<Rightarrow> Inl e
                      | Inr w \<Rightarrow>
                          Inr \<lparr>ratio = RatePretty_new (dec w),
                               asset = CoinPretty_mul (amount a)
                                         (dec (moveDecimalPointLeft shareRatio 2))\<rparr>)
                 (poolAssets pool)))"

subsection \<open>The pools an address owns\<close>

text \<open>
  \<^verbatim>\<open>parseInt(s)\<close> with no radix. Leading white space is skipped, one sign is read, a
  prefix \<^verbatim>\<open>0x\<close> or \<^verbatim>\<open>0X\<close> selects radix 16 (radix 10 otherwise), and the longest
  run of digits of that radix is the mathematical integer \<open>mathValue\<close>; no digit at all
  gives \<^verbatim>\<open>NaN\<close>. Characters are the 8-bit \<open>char\<close>s of HOL, so the white space is the
  part of the language's white space and line terminators below 256.
\<close>

definition isWhiteSpace :: "char \<Rightarrow> bool" where
  "isWhiteSpace c = (of_char c \<in> {9, 10, 11, 12, 13, 32, 160 :: nat})"

definition digitValue :: "char \<Rightarrow> nat option" where
  "digitValue c =
     (let n = (of_char c :: nat) in
      if 48 \<le> n \<and> n \<le> 57 then Some (n - 48)
      else if 97 \<le> n \<and> n \<le> 122 then Some (n - 87)
      else if 65 \<le> n \<and> n \<le> 90 then Some (n - 55)
      else None)"

definition isDigit :: "nat \<Rightarrow> char \<Rightarrow> bool" where
  "isDigit R c = (case digitValue c of None \<Rightarrow> False | Some v \<Rightarrow> v < R)"

definition mathInt :: "nat \<Rightarrow> string \<Rightarrow> int" where
  "mathInt R Z =
     foldl (\<lambda>acc c. acc * int R + (case digitValue c of None \<Rightarrow> 0 | Some v \<Rightarrow> int v)) 0 Z"

definition mathValue :: "string \<Rightarrow> int option" where
  "mathValue inputString =
     (let S = dropWhile isWhiteSpace inputString;
          sign = (if startsWith S ''-'' then - 1 else 1 :: int);
          S = (if startsWith S ''+'' \<or> startsWith S ''-'' then drop 1 S else S);
          hex = (startsWith S ''0x'' \<or> startsWith S ''0X'');
          R = (if hex then 16 else 10);
          S = (if hex then drop 2 S else S);
          Z = takeWhile (isDigit R) S
      in if Z = [] then None else Some (sign * mathInt R Z))"

text \<open>
  The result of \<^verbatim>\<open>parseInt\<close> is a Number, a double: the mathematical integer rounded to
  the nearest double, a tie going to the even significand, and to an infinity from
  \<open>2 ^ 1024\<close> on. Of the doubles only the integers and the infinities can come out of
  \<^verbatim>\<open>parseInt\<close>, so a finite Number is an \<open>int\<close> here; the two zeros are one, as they
  are for \<open>>=\<close>. A double has 53 significant bits: \<open>toNumber\<close> drops the bits of the
  magnitude below the 53rd and rounds on what it drops.
\<close>

datatype Number = NaN | NegInfinity | Finite int | Infinity

definition toNumber :: "int \<Rightarrow> Number" where
  "toNumber n =
     (let a = \<bar>n\<bar>;
          e = nat (bitlen a - 53);
          q = a div 2 ^ e;
          r = a mod 2 ^ e;
          q = (if 2 * r > 2 ^ e \<or> (2 * r = 2 ^ e \<and> odd q) then q + 1 else q);
          m = q * 2 ^ e
      in if m \<ge> 2 ^ 1024 then (if n < 0 then NegInfinity else Infinity)
         else Finite (if n < 0 then - m else m))"

definition parseInt :: "string \<Rightarrow> Number" where
  "parseInt inputString =
     (case mathValue inputString of None \<Rightarrow> NaN | Some n \<Rightarrow> toNumber n)"

text \<open>
  \<open>>=\<close> on two Numbers: false as soon as one of them is \<^verbatim>\<open>NaN\<close>. The comparator
  handed to \<^verbatim>\<open>sort\<close> answers 1 or -1, never 0.
\<close>

fun ge_Number :: "Number \<Rightarrow> Number \<Rightarrow> bool" where
  "ge_Number NaN b = False"
| "ge_Number a NaN = False"
| "ge_Number Infinity b = True"
| "ge_Number a NegInfinity = True"
| "ge_Number (Finite x) (Finite y) = (y \<le> x)"
| "ge_Number a b = False"

definition comparePoolIds :: "string \<Rightarrow> string \<Rightarrow> int" where
  "comparePoolIds e1 e2 = (if ge_Number (parseInt e1) (parseInt e2) then 1 else - 1)"

text \<open>
  \<^verbatim>\<open>[...new Set(result)]\<close>: the elements in the order of their first occurrence.
\<close>

definition Set_add :: "'a list \<Rightarrow> 'a \<Rightarrow> 'a list" where
  "Set_add seen x = (if x \<in> set seen then seen else seen @ [x])"

definition new_Set :: "'a list \<Rightarrow> 'a list" where
  "new_Set xs = foldl Set_add [] xs"

text \<open>The loop of \<^verbatim>\<open>getOwnPools\<close> over \<^verbatim>\<open>balances.concat(locked)\<close>, pushing to \<open>result\<close>.\<close>

fun pushPoolIds :: "CoinPretty list \<Rightarrow> string list \<Rightarrow> string list" where
  "pushPoolIds [] result = result"
| "pushPoolIds (bal # bals) result =
     (if startsWith (coinMinimalDenom (currency bal)) ''gamm/pool/''
      then pushPoolIds bals
             (result @ [replace (coinMinimalDenom (currency bal)) ''gamm/pool/'' []])
      else pushPoolIds bals result)"

text \<open>
  \<^verbatim>\<open>Array.prototype.sort(comparator)\<close> is the engine's, not the repository's, and the
  language leaves the order it produces to the engine when the comparator is not
  consistent; this one never answers 0, so it is not. The sort is therefore a
  parameter of \<open>getOwnPools\<close>, the first one.
\<close>

type_synonym 'a Array_sort = "('a \<Rightarrow> 'a \<Rightarrow> int) \<Rightarrow> 'a list \<Rightarrow> 'a list"

definition getOwnPools :: "string Array_sort \<Rightarrow> Queries \<Rightarrow> string \<Rightarrow> string list" where
  "getOwnPools arraySort q bech32Address =
     (let balances = positiveBalances q bech32Address;
          locked = lockedCoins q bech32Address;
          result = pushPoolIds (balances @ locked) [];
          result = new_Set result
      in arraySort comparePoolIds result)"

text \<open>
  What is asked of a sort: it returns the elements it was given, each as often as
  before; and when the negative answers of the comparator are the strict order of some
  integer key of the elements, no element of the result is followed, anywhere later, by
  one that the comparator puts before it.
\<close>

definition permutes :: "'a Array_sort \<Rightarrow> bool" where
  "permutes arraySort = (\<forall>cmp xs. mset (arraySort cmp xs) = mset xs)"

definition ordersByKey :: "'a Array_sort \<Rightarrow> bool" where
  "ordersByKey arraySort =
     (\<forall>cmp xs. \<forall>k :: 'a \<Rightarrow> int.
        (\<forall>x \<in> set xs. \<forall>y \<in> set xs. (cmp x y < 0) = (k x < k y)) \<longrightarrow>
        sorted_wrt (\<lambda>x y. \<not> cmp y x < 0) (arraySort cmp xs))"

text \<open>
  The sort of the V8 engine (\<^verbatim>\<open>ArrayTimSortImpl\<close>) on an array of fewer than 64
  elements, where the minimum run length is the length of the array: the sort is one
  call of \<^verbatim>\<open>CountAndMakeRun\<close>, which finds the run the array starts with and reverses
  it when it descends, and one call of \<^verbatim>\<open>BinaryInsertionSort\<close> for the elements after
  the run. Both read an answer of the comparator through the test \<open>order < 0\<close> or its
  negation \<open>order >= 0\<close>, never through a test for 0.

  \<open>runLength\<close> is the loop of \<^verbatim>\<open>CountAndMakeRun\<close>: how many elements after the second
  continue the run. \<open>binarySearch\<close> is the inner loop of \<^verbatim>\<open>BinaryInsertionSort\<close>; it
  reads \<open>a ! mid\<close> below \<open>right\<close> only, and \<open>right\<close> starts as the length of the
  sorted part.
\<close>

fun runLength :: "('a \<Rightarrow> 'a \<Rightarrow> int) \<Rightarrow> bool \<Rightarrow> 'a \<Rightarrow> 'a list \<Rightarrow> nat" where
  "runLength cmp isDescending previousElement [] = 0"
| "runLength cmp isDescending previousElement (currentElement # rest) =
     (let order = cmp currentElement previousElement in
      if isDescending then
        (if order \<ge> 0 then 0 else Suc (runLength cmp isDescending currentElement rest))
      else
        (if order < 0 then 0 else Suc (runLength cmp isDescending currentElement rest)))"

fun CountAndMakeRun :: "('a \<Rightarrow> 'a \<Rightarrow> int) \<Rightarrow> 'a list \<Rightarrow> 'a list \<times> nat" where
  "CountAndMakeRun cmp [] = ([], 0)"
| "CountAndMakeRun cmp [x] = ([x], 1)"
| "CountAndMakeRun cmp (elementHigh # elementLow # rest) =
     (let order = cmp elementLow elementHigh;
          isDescending = (order < 0);
          n = 2 + runLength cmp isDescending elementLow rest;
          workArray = elementHigh # elementLow # rest
      in if isDescending then (rev (take n workArray) @ drop n workArray, n)
         else (workArray, n))"

function binarySearch :: "('a \<Rightarrow> 'a \<Rightarrow> int) \<Rightarrow> 'a \<Rightarrow> 'a list \<Rightarrow> nat \<Rightarrow> nat \<Rightarrow> nat" where
  "binarySearch cmp pivot a left right =
     (if left < right then
        (let mid = left + (right - left) div 2;
             order = cmp pivot (a ! mid)
         in if order < 0 then binarySearch cmp pivot a left mid
            else binarySearch cmp pivot a (mid + 1) right)
      else left)"
  by pat_completeness auto
termination
  by (relation "measure (\<lambda>(cmp, pivot, a, left, right). right - left)") auto

declare binarySearch.simps [simp del]

fun BinaryInsertionSort :: "('a \<Rightarrow> 'a \<Rightarrow> int) \<Rightarrow> 'a list \<Rightarrow> 'a list \<Rightarrow> 'a list" where
  "BinaryInsertionSort cmp sorted' [] = sorted'"
| "BinaryInsertionSort cmp sorted' (pivot # rest) =
     (let left = binarySearch cmp pivot sorted' 0 (length sorted')
      in BinaryInsertionSort cmp (take left sorted' @ pivot # drop left sorted') rest)"

definition ArrayTimSort :: "'a Array_sort" where
  "ArrayTimSort cmp a =
     (if length a < 2 then a
      else (case CountAndMakeRun cmp a of
              (workArray, n) \<Rightarrow> BinaryInsertionSort cmp (take n workArray) (drop n workArray)))"

subsection \<open>Snapshots of the stores\<close>

text \<open>
  The scenario of the specification: address \<open>A\<close> holds 30 shares of pool 3 in its
  balance, 50 locked, of which 20 are unlocking; pool 3 has 100 shares in all and is the
  only pool of the registry.
\<close>

definition shareCoin :: "string \<Rightarrow> Dec \<Rightarrow> CoinPretty" where
  "shareCoin poolId a = CoinPretty_new (getShareCurrency poolId) a"

definition uosmo :: Currency where
  "uosmo = \<lparr>coinDenom = ''OSMO'', coinMinimalDenom = ''uosmo'', coinDecimals = 6\<rparr>"

definition uion :: Currency where
  "uion = \<lparr>coinDenom = ''ION'', coinMinimalDenom = ''uion'', coinDecimals = 6\<rparr>"

definition pool3 :: "Dec \<Rightarrow> Pool" where
  "pool3 shares =
     \<lparr>totalShare = shareCoin ''3'' shares,
      poolAssets = [\<lparr>weight = IntPretty_new 3, amount = CoinPretty_new uosmo 6000\<rparr>,
                    \<lparr>weight = IntPretty_new 1, amount = CoinPretty_new uion 40\<rparr>],
      totalWeight = IntPretty_new 4\<rparr>"

definition scenario :: Queries where
  "scenario =
     \<lparr>getPool = (\<lambda>poolId. if poolId = ''3'' then Some (pool3 100) else None),
      positiveBalances = (\<lambda>a. if a = ''A'' then [shareCoin ''3'' 30] else []),
      getBalanceFromCurrency =
        (\<lambda>a c. if a = ''A'' \<and> coinMinimalDenom c = ''gamm/pool/3''
               then CoinPretty_new c 30 else CoinPretty_new c 0),
      lockedCoins = (\<lambda>a. if a = ''A'' then [shareCoin ''3'' 50] else []),
      unlockingCoins = (\<lambda>a. if a = ''A'' then [shareCoin ''3'' 20] else [])\<rparr>"

text \<open>The same holdings while pool 3 has no share at all.\<close>

definition emptyPool :: Queries where
  "emptyPool = scenario\<lparr>getPool := (\<lambda>poolId. if poolId = ''3'' then Some (pool3 0) else None)\<rparr>"

text \<open>
  The same holdings while the locked coins of the address have not arrived: the store
  answers with the empty list.
\<close>

definition lockedNotLoaded :: Queries where
  "lockedNotLoaded = scenario\<lparr>lockedCoins := (\<lambda>a. [])\<rparr>"

text \<open>
  An address with shares of pools 2 and 10 and some OSMO in its balance, and locked
  shares of pools 1 and 2.
\<close>

definition threePools :: Queries where
  "threePools =
     scenario
       \<lparr>positiveBalances :=
          (\<lambda>a. [shareCoin ''2'' 5, CoinPretty_new uosmo 1000000, shareCoin ''10'' 7]),
        lockedCoins := (\<lambda>a. [shareCoin ''1'' 9, shareCoin ''2'' 4])\<rparr>"

text \<open>
  An address with shares of the pools \<open>2 ^ 53 + 1\<close> and \<open>2 ^ 53\<close>, held in this order,
  and nothing locked.
\<close>

definition bigIds :: Queries where
  "bigIds =
     scenario
       \<lparr>positiveBalances :=
          (\<lambda>a. [shareCoin ''9007199254740993'' 1, shareCoin ''9007199254740992'' 1]),
        lockedCoins := (\<lambda>a. [])\<rparr>"

text \<open>
  What the upstream data promises about the two lock-up lists of an address: the locked
  list has one record for a denomination at most and no negative amount, and every
  unlocking record lies within a locked record of its denomination.
\<close>

definition unlockingWithinLocked :: "Queries \<Rightarrow> string \<Rightarrow> bool" where
  "unlockingWithinLocked q a =
     (distinct (map (\<lambda>c. coinMinimalDenom (currency c)) (lockedCoins q a)) \<and>
      (\<forall>l \<in> set (lockedCoins q a). 0 \<le> toDec l) \<and>
      (\<forall>u \<in> set (unlockingCoins q a). \<exists>l \<in> set (lockedCoins q a).
          coinMinimalDenom (currency l) = coinMinimalDenom (currency u) \<and> toDec u \<le> toDec l))"

text \<open>
  An identifier with a numeric value that a double holds exactly, and the order of
  two identifiers by their numeric values.
\<close>

definition numericId :: "string \<Rightarrow> bool" where
  "numericId i = (case mathValue i of None \<Rightarrow> False | Some v \<Rightarrow> \<bar>v\<bar> \<le> 2 ^ 53)"

definition idLe :: "string \<Rightarrow> string \<Rightarrow> bool" where
  "idLe x y = (case (mathValue x, mathValue y) of (Some v, Some w) \<Rightarrow> v \<le> w | _ \<Rightarrow> False)"

section \<open>Properties\<close>

subsection \<open>Facts about the library model\<close>

lemmas model_defs = scenario_def shareCoin_def pool3_def getShareCurrency_def CoinPretty_new_def
  IntPretty_new_def RatePretty_new_def toDec_def CoinPretty_add_def IntPretty_add_def
  CoinPretty_quo_def IntPretty_quo_def Dec_quo_def

lemma replace_prefix: "startsWith s p \<Longrightarrow> replace s p r = r @ drop (length p) s"
  by (cases s) (auto simp: startsWith_def)

lemma startsWith_append: "startsWith (p @ s) p"
  by (simp add: startsWith_def)

lemma startsWith_iff: "startsWith s p \<longleftrightarrow> (\<exists>t. s = p @ t)"
  unfolding startsWith_def
  by (metis append_eq_conv_conj)

lemma CoinPretty_new_zero:
  "toDec (CoinPretty_new c 0) = 0" "currency (CoinPretty_new c a) = c"
  by (simp_all add: CoinPretty_new_def toDec_def IntPretty_new_def)

lemma toDec_add:
  "coinMinimalDenom (currency c) = coinMinimalDenom (currency t) \<Longrightarrow>
   toDec (CoinPretty_add c t) = toDec c + toDec t"
  by (simp add: CoinPretty_add_def IntPretty_add_def toDec_def)

lemma find_None_denom:
  "\<forall>c \<in> set cs. coinMinimalDenom (currency c) \<noteq> d \<Longrightarrow>
   find (\<lambda>coin. coinMinimalDenom (currency coin) = d) cs = None"
  by (simp add: find_None_iff)

lemma find_Some_denom:
  "find (\<lambda>coin. coinMinimalDenom (currency coin) = d) cs = Some c \<Longrightarrow>
   c \<in> set cs \<and> coinMinimalDenom (currency c) = d"
  by (induction cs) (auto split: if_splits)

lemma getLockedGammShare_denom:
  "coinMinimalDenom (currency (getLockedGammShare q a poolId)) =
   coinMinimalDenom (getShareCurrency poolId)"
proof (cases "find (\<lambda>coin. coinMinimalDenom (currency coin) = coinMinimalDenom (getShareCurrency poolId))
                (lockedCoins q a)")
  case None
  then show ?thesis by (simp add: getLockedGammShare_def CoinPretty_new_zero)
next
  case (Some c)
  then show ?thesis using find_Some_denom [OF Some] by (simp add: getLockedGammShare_def)
qed

subsection \<open>The share currency\<close>

text \<open>
  Claim C8. For every pool identifier, the share currency has the minimal denomination
  \<open>gamm/pool/\<close> followed by the identifier, the display denomination \<open>GAMM/\<close> followed
  by the identifier, and 18 decimals. The minimal denomination passes the test of
  \<open>getOwnPools\<close>, and stripping the prefix as \<open>getOwnPools\<close> does gives the identifier
  back: the loop of \<open>getOwnPools\<close> over one coin of that currency collects exactly it.
\<close>

theorem getShareCurrency_roundtrip:
  "coinMinimalDenom (getShareCurrency poolId) = ''gamm/pool/'' @ poolId \<and>
   coinDenom (getShareCurrency poolId) = ''GAMM/'' @ poolId \<and>
   coinDecimals (getShareCurrency poolId) = 18 \<and>
   startsWith (coinMinimalDenom (getShareCurrency poolId)) ''gamm/pool/'' \<and>
   replace (coinMinimalDenom (getShareCurrency poolId)) ''gamm/pool/'' [] = poolId \<and>
   pushPoolIds [CoinPretty_new (getShareCurrency poolId) a] [] = [poolId]"
proof -
  have d: "coinMinimalDenom (getShareCurrency poolId) = ''gamm/pool/'' @ poolId"
    by (simp add: getShareCurrency_def)
  have s: "startsWith (''gamm/pool/'' @ poolId) ''gamm/pool/''"
    by (rule startsWith_append)
  have r: "replace (''gamm/pool/'' @ poolId) ''gamm/pool/'' [] = poolId"
    using replace_prefix [OF s, of "[]"] by simp
  have c: "currency (CoinPretty_new (getShareCurrency poolId) a) = getShareCurrency poolId"
    by (simp add: CoinPretty_new_def)
  have p: "pushPoolIds [CoinPretty_new (getShareCurrency poolId) a] [] = [poolId]"
    using s r by (simp only: pushPoolIds.simps c d if_True append_Nil)
  show ?thesis using d s r p by (simp add: getShareCurrency_def)
qed

subsection \<open>Share amounts\<close>

text \<open>
  Claim C9. If the locked-coin list of the address has no record in the share currency
  of the pool, \<open>getLockedGammShare\<close> is the zero amount in that currency, and likewise
  \<open>getUnlockingGammShare\<close> for the unlocking-coin list. Both functions are total and
  return a coin: there is no error or absent value to return.
\<close>

theorem missing_record_is_zero:
  "((\<forall>c \<in> set (lockedCoins q a).
       coinMinimalDenom (currency c) \<noteq> coinMinimalDenom (getShareCurrency poolId)) \<longrightarrow>
     getLockedGammShare q a poolId = CoinPretty_new (getShareCurrency poolId) 0 \<and>
     toDec (getLockedGammShare q a poolId) = 0 \<and>
     currency (getLockedGammShare q a poolId) = getShareCurrency poolId) \<and>
   ((\<forall>c \<in> set (unlockingCoins q a).
       coinMinimalDenom (currency c) \<noteq> coinMinimalDenom (getShareCurrency poolId)) \<longrightarrow>
     getUnlockingGammShare q a poolId = CoinPretty_new (getShareCurrency poolId) 0 \<and>
     toDec (getUnlockingGammShare q a poolId) = 0 \<and>
     currency (getUnlockingGammShare q a poolId) = getShareCurrency poolId)"
proof (intro conjI impI)
  assume h: "\<forall>c \<in> set (lockedCoins q a).
       coinMinimalDenom (currency c) \<noteq> coinMinimalDenom (getShareCurrency poolId)"
  show l: "getLockedGammShare q a poolId = CoinPretty_new (getShareCurrency poolId) 0"
    using find_None_denom [OF h] by (simp add: getLockedGammShare_def)
  show "toDec (getLockedGammShare q a poolId) = 0"
    by (simp only: l CoinPretty_new_zero)
  show "currency (getLockedGammShare q a poolId) = getShareCurrency poolId"
    by (simp only: l CoinPretty_new_zero)
next
  assume h: "\<forall>c \<in> set (unlockingCoins q a).
       coinMinimalDenom (currency c) \<noteq> coinMinimalDenom (getShareCurrency poolId)"
  show u: "getUnlockingGammShare q a poolId = CoinPretty_new (getShareCurrency poolId) 0"
    using find_None_denom [OF h] by (simp add: getUnlockingGammShare_def)
  show "toDec (getUnlockingGammShare q a poolId) = 0"
    by (simp only: u CoinPretty_new_zero)
  show "currency (getUnlockingGammShare q a poolId) = getShareCurrency poolId"
    by (simp only: u CoinPretty_new_zero)
qed

text \<open>
  In the scenario, address \<open>A\<close> has lock-up records for pool 3 only, so its locked and
  unlocking shares of pool 7 are zero.
\<close>

theorem missing_record_is_zero_witness:
  "map (\<lambda>c. coinMinimalDenom (currency c)) (lockedCoins scenario ''A'') = [''gamm/pool/3''] \<and>
   map (\<lambda>c. coinMinimalDenom (currency c)) (unlockingCoins scenario ''A'') = [''gamm/pool/3''] \<and>
   coinMinimalDenom (getShareCurrency ''7'') = ''gamm/pool/7'' \<and>
   getLockedGammShare scenario ''A'' ''7'' = CoinPretty_new (getShareCurrency ''7'') 0 \<and>
   toDec (getLockedGammShare scenario ''A'' ''7'') = 0 \<and>
   getUnlockingGammShare scenario ''A'' ''7'' = CoinPretty_new (getShareCurrency ''7'') 0 \<and>
   toDec (getUnlockingGammShare scenario ''A'' ''7'') = 0"
proof -
  have l: "map (\<lambda>c. coinMinimalDenom (currency c)) (lockedCoins scenario ''A'') = [''gamm/pool/3'']"
    by (simp add: scenario_def shareCoin_def CoinPretty_new_def getShareCurrency_def)
  have u: "map (\<lambda>c. coinMinimalDenom (currency c)) (unlockingCoins scenario ''A'') = [''gamm/pool/3'']"
    by (simp add: scenario_def shareCoin_def CoinPretty_new_def getShareCurrency_def)
  have d: "coinMinimalDenom (getShareCurrency ''7'') = ''gamm/pool/7''"
    by (simp add: getShareCurrency_def)
  have hl: "\<forall>c \<in> set (lockedCoins scenario ''A'').
       coinMinimalDenom (currency c) \<noteq> coinMinimalDenom (getShareCurrency ''7'')"
    by (simp add: scenario_def shareCoin_def CoinPretty_new_def getShareCurrency_def)
  have hu: "\<forall>c \<in> set (unlockingCoins scenario ''A'').
       coinMinimalDenom (currency c) \<noteq> coinMinimalDenom (getShareCurrency ''7'')"
    by (simp add: scenario_def shareCoin_def CoinPretty_new_def getShareCurrency_def)
  show ?thesis
    using l u d hl hu missing_record_is_zero [of scenario "''A''" "''7''"] by blast
qed

text \<open>
  Claim C10. The four amounts do not depend on the pool registry: replacing the pool
  lookup of a snapshot by any other one, also one without the pool, leaves the
  available, locked, unlocking and total share of every address and pool unchanged.
\<close>

theorem amounts_ignore_pools:
  "getAvailableGammShare (q\<lparr>getPool := pools\<rparr>) a poolId = getAvailableGammShare q a poolId \<and>
   getLockedGammShare (q\<lparr>getPool := pools\<rparr>) a poolId = getLockedGammShare q a poolId \<and>
   getUnlockingGammShare (q\<lparr>getPool := pools\<rparr>) a poolId = getUnlockingGammShare q a poolId \<and>
   getAllGammShare (q\<lparr>getPool := pools\<rparr>) a poolId = getAllGammShare q a poolId"
  by (simp add: getAvailableGammShare_def getLockedGammShare_def getUnlockingGammShare_def
      getAllGammShare_def)

text \<open>
  Claim C2. The total share is the available share with the locked share added by
  \<open>CoinPretty.add\<close>, and the unlocking coins play no part in it: whatever the
  unlocking-coin view holds, the total is the same. When the balance view answers in the
  denomination it was asked for, the total amount is the sum of the two amounts.
\<close>

theorem getAllGammShare_available_plus_locked:
  "getAllGammShare q a poolId =
     CoinPretty_add (getAvailableGammShare q a poolId) (getLockedGammShare q a poolId) \<and>
   getAllGammShare (q\<lparr>unlockingCoins := unlocking\<rparr>) a poolId = getAllGammShare q a poolId \<and>
   (coinMinimalDenom (currency (getBalanceFromCurrency q a (getShareCurrency poolId))) =
      coinMinimalDenom (getShareCurrency poolId) \<longrightarrow>
    toDec (getAllGammShare q a poolId) =
      toDec (getAvailableGammShare q a poolId) + toDec (getLockedGammShare q a poolId))"
proof (intro conjI impI)
  show e: "getAllGammShare q a poolId =
     CoinPretty_add (getAvailableGammShare q a poolId) (getLockedGammShare q a poolId)"
    by (simp add: getAllGammShare_def)
  show "getAllGammShare (q\<lparr>unlockingCoins := unlocking\<rparr>) a poolId = getAllGammShare q a poolId"
    by (simp add: getAllGammShare_def getAvailableGammShare_def getLockedGammShare_def)
  assume "coinMinimalDenom (currency (getBalanceFromCurrency q a (getShareCurrency poolId))) =
      coinMinimalDenom (getShareCurrency poolId)"
  then have "coinMinimalDenom (currency (getAvailableGammShare q a poolId)) =
      coinMinimalDenom (currency (getLockedGammShare q a poolId))"
    by (simp add: getAvailableGammShare_def getLockedGammShare_denom)
  then show "toDec (getAllGammShare q a poolId) =
      toDec (getAvailableGammShare q a poolId) + toDec (getLockedGammShare q a poolId)"
    unfolding e by (rule toDec_add)
qed

text \<open>
  In the scenario the balance view answers in the share currency of pool 3, and the
  total of 80 is 30 available plus 50 locked; the 20 unlocking are not added.
\<close>

theorem getAllGammShare_available_plus_locked_witness:
  "coinMinimalDenom (currency (getBalanceFromCurrency scenario ''A'' (getShareCurrency ''3''))) =
     coinMinimalDenom (getShareCurrency ''3'') \<and>
   toDec (getAvailableGammShare scenario ''A'' ''3'') * 10 ^ 18 = 30 \<and>
   toDec (getLockedGammShare scenario ''A'' ''3'') * 10 ^ 18 = 50 \<and>
   toDec (getUnlockingGammShare scenario ''A'' ''3'') * 10 ^ 18 = 20 \<and>
   toDec (getAllGammShare scenario ''A'' ''3'') * 10 ^ 18 = 80"
proof -
  have h: "coinMinimalDenom (currency (getBalanceFromCurrency scenario ''A'' (getShareCurrency ''3''))) =
     coinMinimalDenom (getShareCurrency ''3'')"
    by (simp add: model_defs)
  have v: "toDec (getAvailableGammShare scenario ''A'' ''3'') = 30 / 10 ^ 18"
    by (simp add: getAvailableGammShare_def model_defs)
  have l: "toDec (getLockedGammShare scenario ''A'' ''3'') = 50 / 10 ^ 18"
    by (simp add: getLockedGammShare_def model_defs)
  have u: "toDec (getUnlockingGammShare scenario ''A'' ''3'') = 20 / 10 ^ 18"
    by (simp add: getUnlockingGammShare_def model_defs)
  have "toDec (getAllGammShare scenario ''A'' ''3'') =
      toDec (getAvailableGammShare scenario ''A'' ''3'') + toDec (getLockedGammShare scenario ''A'' ''3'')"
    using h getAllGammShare_available_plus_locked [of scenario "''A''" "''3''"] by blast
  then have s: "toDec (getAllGammShare scenario ''A'' ''3'') = 30 / 10 ^ 18 + 50 / 10 ^ 18"
    by (simp only: v l)
  show ?thesis
    unfolding v l u s using h by simp
qed

text \<open>
  Claim C7, as stated, asks that the unlocking share never exceeds the locked share,
  on every snapshot. The two functions read two independent lists and nothing in the
  class relates them: while the locked coins of the address have not arrived, the
  unlocking share of 20 exceeds the locked share of zero.
\<close>

theorem unlocking_exceeds_locked_counterexample:
  "\<not> toDec (getUnlockingGammShare lockedNotLoaded ''A'' ''3'')
       \<le> toDec (getLockedGammShare lockedNotLoaded ''A'' ''3'')"
  by (simp add: lockedNotLoaded_def getUnlockingGammShare_def getLockedGammShare_def model_defs)

text \<open>
  Claim C7, amended. On every snapshot whose lock-up lists are consistent for the
  address (one locked record for a denomination at most, no negative locked amount, and
  every unlocking record within a locked record of its denomination), the unlocking
  share of every pool is at most the locked share.
\<close>

theorem unlocking_le_locked:
  assumes "unlockingWithinLocked q a"
  shows "toDec (getUnlockingGammShare q a poolId) \<le> toDec (getLockedGammShare q a poolId)"
proof -
  let ?d = "coinMinimalDenom (getShareCurrency poolId)"
  let ?P = "\<lambda>coin. coinMinimalDenom (currency coin) = ?d"
  from assms have dist: "distinct (map (\<lambda>c. coinMinimalDenom (currency c)) (lockedCoins q a))"
    and nonneg: "\<forall>l \<in> set (lockedCoins q a). 0 \<le> toDec l"
    and within: "\<forall>u \<in> set (unlockingCoins q a). \<exists>l \<in> set (lockedCoins q a).
          coinMinimalDenom (currency l) = coinMinimalDenom (currency u) \<and> toDec u \<le> toDec l"
    by (simp_all add: unlockingWithinLocked_def)
  have locked_nonneg: "0 \<le> toDec (getLockedGammShare q a poolId)"
  proof (cases "find ?P (lockedCoins q a)")
    case None
    then show ?thesis by (simp add: getLockedGammShare_def CoinPretty_new_zero)
  next
    case (Some l)
    then show ?thesis using find_Some_denom [OF Some] nonneg by (simp add: getLockedGammShare_def)
  qed
  show ?thesis
  proof (cases "find ?P (unlockingCoins q a)")
    case None
    then have "toDec (getUnlockingGammShare q a poolId) = 0"
      by (simp add: getUnlockingGammShare_def CoinPretty_new_zero)
    with locked_nonneg show ?thesis by simp
  next
    case (Some u)
    from find_Some_denom [OF Some] have u: "u \<in> set (unlockingCoins q a)" "?P u" by simp_all
    from within u obtain l where l: "l \<in> set (lockedCoins q a)" "?P l" "toDec u \<le> toDec l"
      by auto
    then obtain l' where l': "find ?P (lockedCoins q a) = Some l'"
      by (cases "find ?P (lockedCoins q a)") (auto simp: find_None_iff)
    from find_Some_denom [OF l'] have m: "l' \<in> set (lockedCoins q a)" "?P l'" by simp_all
    from dist l(1,2) m have "l' = l"
      by (metis (mono_tags, lifting) distinct_map inj_onD)
    with Some l' l(3) show ?thesis
      by (simp add: getUnlockingGammShare_def getLockedGammShare_def)
  qed
qed

text \<open>
  The scenario is such a snapshot: 20 unlocking shares of pool 3 within 50 locked ones.
\<close>

theorem unlocking_le_locked_witness:
  "unlockingWithinLocked scenario ''A'' \<and>
   toDec (getUnlockingGammShare scenario ''A'' ''3'') * 10 ^ 18 = 20 \<and>
   toDec (getLockedGammShare scenario ''A'' ''3'') * 10 ^ 18 = 50 \<and>
   toDec (getUnlockingGammShare scenario ''A'' ''3'') \<le> toDec (getLockedGammShare scenario ''A'' ''3'')"
proof -
  have h: "unlockingWithinLocked scenario ''A''"
    by (simp add: unlockingWithinLocked_def model_defs)
  have l: "toDec (getLockedGammShare scenario ''A'' ''3'') = 50 / 10 ^ 18"
    by (simp add: getLockedGammShare_def model_defs)
  have u: "toDec (getUnlockingGammShare scenario ''A'' ''3'') = 20 / 10 ^ 18"
    by (simp add: getUnlockingGammShare_def model_defs)
  have "toDec (getUnlockingGammShare scenario ''A'' ''3'') \<le> toDec (getLockedGammShare scenario ''A'' ''3'')"
    using unlocking_le_locked [OF h, of "''3''"] .
  then show ?thesis using h l u by simp
qed

subsection \<open>Ratios\<close>

text \<open>
  Claim C1. If the pool lookup has no entry for the pool, the locked, available and
  total share ratios are the not-ready zero ratio, the locked share value is the
  not-ready zero price, and \<open>getShareAssets\<close> is the empty list; none of them throws.
  The not-ready results differ from the ready zero results in their ready flag.
\<close>

theorem unknown_pool_not_ready:
  "getPool q poolId = None \<longrightarrow>
     getLockedGammShareRatio q a poolId = Inr (ready (RatePretty_new 0) False) \<and>
     getAvailableGammShareRatio q a poolId = Inr (ready (RatePretty_new 0) False) \<and>
     getAllGammShareRatio q a poolId = Inr (ready (RatePretty_new 0) False) \<and>
     getLockedGammShareValue q a poolId poolLiqudity fiat =
       Inr (PricePretty_ready (PricePretty_new fiat 0) False) \<and>
     getShareAssets q a poolId = Inr [] \<and>
     \<not> isReady (ready (RatePretty_new 0) False) \<and>
     isReady (RatePretty_new 0) \<and>
     ready (RatePretty_new 0) False \<noteq> RatePretty_new 0 \<and>
     \<not> isReady (price (PricePretty_ready (PricePretty_new fiat 0) False)) \<and>
     isReady (price (PricePretty_new fiat 0)) \<and>
     PricePretty_ready (PricePretty_new fiat 0) False \<noteq> PricePretty_new fiat 0"
proof (intro impI conjI)
  assume h: "getPool q poolId = None"
  show "getLockedGammShareRatio q a poolId = Inr (ready (RatePretty_new 0) False)"
    using h by (simp add: getLockedGammShareRatio_def)
  show "getAvailableGammShareRatio q a poolId = Inr (ready (RatePretty_new 0) False)"
    using h by (simp add: getAvailableGammShareRatio_def)
  show r: "getAllGammShareRatio q a poolId = Inr (ready (RatePretty_new 0) False)"
    using h by (simp add: getAllGammShareRatio_def)
  show "getLockedGammShareValue q a poolId poolLiqudity fiat =
       Inr (PricePretty_ready (PricePretty_new fiat 0) False)"
    using h by (simp add: getLockedGammShareValue_def)
  show "getShareAssets q a poolId = Inr []"
    using h r by (simp add: getShareAssets_def)
  show "\<not> isReady (ready (RatePretty_new 0) False)"
    by (simp add: ready_def)
  show "isReady (RatePretty_new 0)"
    by (simp add: RatePretty_new_def IntPretty_new_def)
  show "ready (RatePretty_new 0) False \<noteq> RatePretty_new 0"
    by (simp add: ready_def RatePretty_new_def IntPretty_new_def)
  show "\<not> isReady (price (PricePretty_ready (PricePretty_new fiat 0) False))"
    by (simp add: PricePretty_ready_def ready_def)
  show "isReady (price (PricePretty_new fiat 0))"
    by (simp add: PricePretty_new_def IntPretty_new_def)
  show "PricePretty_ready (PricePretty_new fiat 0) False \<noteq> PricePretty_new fiat 0"
    by (simp add: PricePretty_ready_def PricePretty_new_def ready_def IntPretty_new_def)
qed

text \<open>
  Pool 7 is absent from the registry of the scenario.
\<close>

theorem unknown_pool_not_ready_witness:
  "getPool scenario ''7'' = None \<and>
   getLockedGammShareRatio scenario ''A'' ''7'' = Inr \<lparr>dec = 0, isReady = False\<rparr> \<and>
   getAvailableGammShareRatio scenario ''A'' ''7'' = Inr \<lparr>dec = 0, isReady = False\<rparr> \<and>
   getAllGammShareRatio scenario ''A'' ''7'' = Inr \<lparr>dec = 0, isReady = False\<rparr> \<and>
   getShareAssets scenario ''A'' ''7'' = Inr []"
proof -
  have h: "getPool scenario ''7'' = None"
    by (simp add: scenario_def)
  have e: "ready (RatePretty_new 0) False = \<lparr>dec = 0, isReady = False\<rparr>"
    by (simp add: ready_def RatePretty_new_def IntPretty_new_def)
  show ?thesis
    using h e unknown_pool_not_ready [of scenario "''7''" "''A''"] by simp
qed

text \<open>
  Claim C3. If the pool is known and its total share is zero, \<open>getAllGammShareRatio\<close>
  is the ratio built from the total share itself: a ready ratio of value zero.
\<close>

theorem zero_total_share_all_ratio:
  "getPool q poolId = Some pool \<and> toDec (totalShare pool) = 0 \<longrightarrow>
     getAllGammShareRatio q a poolId = Inr (RatePretty_new (toDec (totalShare pool))) \<and>
     isReady (RatePretty_new (toDec (totalShare pool))) \<and>
     dec (RatePretty_new (toDec (totalShare pool))) = 0"
  by (simp add: getAllGammShareRatio_def Let_def RatePretty_new_def IntPretty_new_def)

text \<open>
  Pool 3 without any share: the total share ratio of \<open>A\<close> is the ready zero.
\<close>

theorem zero_total_share_all_ratio_witness:
  "getPool emptyPool ''3'' = Some (pool3 0) \<and> toDec (totalShare (pool3 0)) = 0 \<and>
   getAllGammShareRatio emptyPool ''A'' ''3'' = Inr \<lparr>dec = 0, isReady = True\<rparr>"
proof -
  have h: "getPool emptyPool ''3'' = Some (pool3 0)"
    by (simp add: emptyPool_def)
  have z: "toDec (totalShare (pool3 0)) = 0"
    by (simp add: pool3_def shareCoin_def CoinPretty_new_def toDec_def IntPretty_new_def)
  have e: "RatePretty_new 0 = \<lparr>dec = 0, isReady = True\<rparr>"
    by (simp add: RatePretty_new_def IntPretty_new_def)
  show ?thesis
    using h z e zero_total_share_all_ratio [of emptyPool "''3''" "pool3 0" "''A''"] by simp
qed

text \<open>
  Claim C4. If the pool is known and its total share is zero, the locked and the
  available share ratio are the ready zero ratio: the division is not reached, so
  neither a division by zero nor a not-ready result comes back.
\<close>

theorem zero_total_share_zero_ratio:
  "getPool q poolId = Some pool \<and> toDec (totalShare pool) = 0 \<longrightarrow>
     getLockedGammShareRatio q a poolId = Inr (RatePretty_new 0) \<and>
     getAvailableGammShareRatio q a poolId = Inr (RatePretty_new 0) \<and>
     isReady (RatePretty_new 0) \<and> dec (RatePretty_new 0) = 0"
  by (simp add: getLockedGammShareRatio_def getAvailableGammShareRatio_def Let_def
      RatePretty_new_def IntPretty_new_def)

text \<open>
  Pool 3 without any share: both ratios of \<open>A\<close> are the ready zero.
\<close>

theorem zero_total_share_zero_ratio_witness:
  "getPool emptyPool ''3'' = Some (pool3 0) \<and> toDec (totalShare (pool3 0)) = 0 \<and>
   getLockedGammShareRatio emptyPool ''A'' ''3'' = Inr \<lparr>dec = 0, isReady = True\<rparr> \<and>
   getAvailableGammShareRatio emptyPool ''A'' ''3'' = Inr \<lparr>dec = 0, isReady = True\<rparr>"
proof -
  have h: "getPool emptyPool ''3'' = Some (pool3 0)"
    by (simp add: emptyPool_def)
  have z: "toDec (totalShare (pool3 0)) = 0"
    by (simp add: pool3_def shareCoin_def CoinPretty_new_def toDec_def IntPretty_new_def)
  have e: "RatePretty_new 0 = \<lparr>dec = 0, isReady = True\<rparr>"
    by (simp add: RatePretty_new_def IntPretty_new_def)
  show ?thesis
    using h z e zero_total_share_zero_ratio [of emptyPool "''3''" "pool3 0" "''A''"] by simp
qed

text \<open>
  Claim C6. In the scenario, the locked share of \<open>A\<close> in pool 3 is 50, the unlocking
  share 20, the available share 30, the total share 80, and the total share ratio is
  the ready ratio 4/5, that is 0.80 or 80 percent.
\<close>

theorem scenario_pool3:
  "getLockedGammShare scenario ''A'' ''3'' = shareCoin ''3'' 50 \<and>
   getUnlockingGammShare scenario ''A'' ''3'' = shareCoin ''3'' 20 \<and>
   getAvailableGammShare scenario ''A'' ''3'' = shareCoin ''3'' 30 \<and>
   getAllGammShare scenario ''A'' ''3'' = shareCoin ''3'' 80 \<and>
   toDec (getAllGammShare scenario ''A'' ''3'') * 10 ^ 18 = 80 \<and>
   toDec (totalShare (pool3 100)) * 10 ^ 18 = 100 \<and>
   getAllGammShareRatio scenario ''A'' ''3'' = Inr \<lparr>dec = 4 / 5, isReady = True\<rparr>"
proof (intro conjI)
  show l: "getLockedGammShare scenario ''A'' ''3'' = shareCoin ''3'' 50"
    by (simp add: getLockedGammShare_def model_defs)
  show "getUnlockingGammShare scenario ''A'' ''3'' = shareCoin ''3'' 20"
    by (simp add: getUnlockingGammShare_def model_defs)
  show v: "getAvailableGammShare scenario ''A'' ''3'' = shareCoin ''3'' 30"
    by (simp add: getAvailableGammShare_def model_defs)
  show s: "getAllGammShare scenario ''A'' ''3'' = shareCoin ''3'' 80"
    unfolding getAllGammShare_def Let_def l v by (simp add: model_defs)
  show "toDec (getAllGammShare scenario ''A'' ''3'') * 10 ^ 18 = 80"
    unfolding s by (simp add: model_defs)
  show "toDec (totalShare (pool3 100)) * 10 ^ 18 = 100"
    by (simp add: model_defs)
  have p: "getPool scenario ''3'' = Some (pool3 100)"
    by (simp add: scenario_def)
  show "getAllGammShareRatio scenario ''A'' ''3'' = Inr \<lparr>dec = 4 / 5, isReady = True\<rparr>"
    unfolding getAllGammShareRatio_def Let_def p s by (simp add: model_defs)
qed

subsection \<open>The engine's sort on short arrays\<close>

lemma binarySearch_le:
  "left \<le> right \<Longrightarrow> binarySearch cmp pivot a left right \<le> right"
proof (induction cmp pivot a left right rule: binarySearch.induct)
  case (1 cmp pivot a left right)
  show ?case
  proof (cases "left < right")
    case False
    with "1.prems" show ?thesis by (simp add: binarySearch.simps)
  next
    case True
    let ?mid = "left + (right - left) div 2"
    have m: "left \<le> ?mid" "?mid < right" using True by auto
    show ?thesis
    proof (cases "cmp pivot (a ! ?mid) < 0")
      case True
      have "binarySearch cmp pivot a left ?mid \<le> ?mid"
        using "1.IH"(1) [OF \<open>left < right\<close> refl refl True] m by simp
      then show ?thesis
        using \<open>left < right\<close> True m by (subst binarySearch.simps) (simp add: Let_def)
    next
      case False
      have "binarySearch cmp pivot a (?mid + 1) right \<le> right"
        using "1.IH"(2) [OF \<open>left < right\<close> refl refl False] m by simp
      then show ?thesis
        using \<open>left < right\<close> False by (subst binarySearch.simps) (simp add: Let_def)
    qed
  qed
qed

lemma binarySearch_split:
  assumes "\<forall>x \<in> set a. (cmp pivot x < 0) = (k pivot < (k x :: int))"
    and "sorted (map k a)"
    and "left \<le> right" and "right \<le> length a"
    and "\<forall>j < left. k (a ! j) \<le> k pivot"
    and "\<forall>j. right \<le> j \<and> j < length a \<longrightarrow> k pivot < k (a ! j)"
  shows "(\<forall>j < binarySearch cmp pivot a left right. k (a ! j) \<le> k pivot) \<and>
         (\<forall>j. binarySearch cmp pivot a left right \<le> j \<and> j < length a \<longrightarrow> k pivot < k (a ! j))"
  using assms
proof (induction cmp pivot a left right rule: binarySearch.induct)
  case (1 cmp pivot a left right)
  show ?case
  proof (cases "left < right")
    case False
    with "1.prems" have "left = right" by simp
    with "1.prems" show ?thesis by (simp add: binarySearch.simps)
  next
    case True
    let ?mid = "left + (right - left) div 2"
    have m: "left \<le> ?mid" "?mid < right" "?mid < length a"
      using True "1.prems"(4) by auto
    have mono: "\<And>i j. i \<le> j \<Longrightarrow> j < length a \<Longrightarrow> k (a ! i) \<le> k (a ! j)"
      using sorted_nth_mono [OF "1.prems"(2)] by (simp add: nth_map)
    have key: "(cmp pivot (a ! ?mid) < 0) = (k pivot < k (a ! ?mid))"
      using "1.prems"(1) m(3) by simp
    show ?thesis
    proof (cases "cmp pivot (a ! ?mid) < 0")
      case lt: True
      have above: "\<forall>j. ?mid \<le> j \<and> j < length a \<longrightarrow> k pivot < k (a ! j)"
      proof (intro allI impI)
        fix j assume "?mid \<le> j \<and> j < length a"
        then have "k (a ! ?mid) \<le> k (a ! j)" using mono by blast
        with lt key show "k pivot < k (a ! j)" by simp
      qed
      have "(\<forall>j < binarySearch cmp pivot a left ?mid. k (a ! j) \<le> k pivot) \<and>
         (\<forall>j. binarySearch cmp pivot a left ?mid \<le> j \<and> j < length a \<longrightarrow> k pivot < k (a ! j))"
        using "1.IH"(1) [OF True refl refl lt "1.prems"(1,2) m(1) _ "1.prems"(5) above] m(3)
        by simp
      moreover have "binarySearch cmp pivot a left right = binarySearch cmp pivot a left ?mid"
        using True lt by (subst binarySearch.simps) (simp add: Let_def)
      ultimately show ?thesis by simp
    next
      case ge: False
      have below: "\<forall>j < ?mid + 1. k (a ! j) \<le> k pivot"
      proof (intro allI impI)
        fix j assume "j < ?mid + 1"
        then have "k (a ! j) \<le> k (a ! ?mid)" using mono [of j ?mid] m(3) by simp
        with ge key show "k (a ! j) \<le> k pivot" by simp
      qed
      have "(\<forall>j < binarySearch cmp pivot a (?mid + 1) right. k (a ! j) \<le> k pivot) \<and>
         (\<forall>j. binarySearch cmp pivot a (?mid + 1) right \<le> j \<and> j < length a \<longrightarrow> k pivot < k (a ! j))"
        using "1.IH"(2) [OF True refl refl ge "1.prems"(1,2) _ "1.prems"(4) below "1.prems"(6)] m(2)
        by simp
      moreover have "binarySearch cmp pivot a left right = binarySearch cmp pivot a (?mid + 1) right"
        using True ge by (subst binarySearch.simps) (simp add: Let_def)
      ultimately show ?thesis by simp
    qed
  qed
qed

lemma sorted_insert_at:
  assumes "sorted (map k a)" and "r \<le> length a"
    and "\<forall>j < r. k (a ! j) \<le> (k pivot :: int)"
    and "\<forall>j. r \<le> j \<and> j < length a \<longrightarrow> k pivot < k (a ! j)"
  shows "sorted (map k (take r a @ pivot # drop r a))"
proof -
  have t: "\<forall>x \<in> set (take r a). k x \<le> k pivot"
    using assms(2,3) by (auto simp: in_set_conv_nth)
  have d: "\<forall>y \<in> set (drop r a). k pivot < k y"
    using assms(2,4) by (auto simp: in_set_conv_nth)
  have s: "sorted (map k (take r a))" "sorted (map k (drop r a))"
    using assms(1) by (simp_all add: sorted_wrt_take sorted_wrt_drop flip: take_map drop_map)
  have td: "\<forall>x \<in> set (take r a). \<forall>y \<in> set (drop r a). k x \<le> k y"
    using t d by fastforce
  show ?thesis
    using s t d td by (auto simp: sorted_append)
qed

lemma mset_BinaryInsertionSort:
  "mset (BinaryInsertionSort cmp pre rest) = mset pre + mset rest"
proof (induction rest arbitrary: pre)
  case Nil
  show ?case by simp
next
  case (Cons pivot rest)
  have "mset (take n pre @ pivot # drop n pre) = mset pre + {#pivot#}" for n
    by (metis append_take_drop_id mset_append add_mset_add_single union_mset_add_mset_right mset.simps(2))
  then show ?case by (simp add: Cons.IH Let_def)
qed

lemma sorted_BinaryInsertionSort:
  assumes "\<forall>x \<in> set (pre @ rest). \<forall>y \<in> set (pre @ rest). (cmp x y < 0) = (k x < (k y :: int))"
    and "sorted (map k pre)"
  shows "sorted (map k (BinaryInsertionSort cmp pre rest))"
  using assms
proof (induction rest arbitrary: pre)
  case Nil
  then show ?case by simp
next
  case (Cons pivot rest)
  let ?r = "binarySearch cmp pivot pre 0 (length pre)"
  have key: "\<forall>x \<in> set pre. (cmp pivot x < 0) = (k pivot < k x)"
    using Cons.prems(1) by simp
  have r: "?r \<le> length pre" by (rule binarySearch_le) simp
  have "(\<forall>j < ?r. k (pre ! j) \<le> k pivot) \<and>
        (\<forall>j. ?r \<le> j \<and> j < length pre \<longrightarrow> k pivot < k (pre ! j))"
    using binarySearch_split [where a = pre and cmp = cmp and pivot = pivot and k = k
        and left = 0 and right = "length pre"] key Cons.prems(2)
    by simp
  then have s: "sorted (map k (take ?r pre @ pivot # drop ?r pre))"
    using sorted_insert_at [OF Cons.prems(2) r] by blast
  have "set (take ?r pre @ pivot # drop ?r pre) = insert pivot (set pre)"
    by (metis append_take_drop_id list.simps(15) set_append Un_insert_right)
  then have eq: "set ((take ?r pre @ pivot # drop ?r pre) @ rest) = set (pre @ pivot # rest)"
    by (simp only: set_append) simp
  have k': "\<forall>x \<in> set ((take ?r pre @ pivot # drop ?r pre) @ rest).
             \<forall>y \<in> set ((take ?r pre @ pivot # drop ?r pre) @ rest). (cmp x y < 0) = (k x < k y)"
    unfolding eq by (rule Cons.prems(1))
  show ?case
    using Cons.IH [OF k' s] by (simp add: Let_def)
qed

lemma runLength_le: "runLength cmp d p rest \<le> length rest"
  by (induction rest arbitrary: p) (auto simp: Let_def)

lemma ascending_run:
  assumes "\<forall>x \<in> set (p # rest). \<forall>y \<in> set (p # rest). (cmp x y < 0) = (k x < (k y :: int))"
  shows "sorted (map k (p # take (runLength cmp False p rest) rest))"
  using assms
proof (induction rest arbitrary: p)
  case Nil
  show ?case by simp
next
  case (Cons c cs)
  show ?case
  proof (cases "cmp c p < 0")
    case True
    then show ?thesis by (simp add: Let_def)
  next
    case False
    with Cons.prems have le: "k p \<le> k c" by auto
    have ih: "sorted (map k (c # take (runLength cmp False c cs) cs))"
      using Cons.IH [of c] Cons.prems by simp
    have run: "p # take (runLength cmp False p (c # cs)) (c # cs) =
        p # c # take (runLength cmp False c cs) cs"
      using False by (simp add: Let_def)
    show ?thesis
      unfolding run list.map sorted2 using le ih [unfolded list.map] by blast
  qed
qed

lemma descending_run:
  assumes "\<forall>x \<in> set (p # rest). \<forall>y \<in> set (p # rest). (cmp x y < 0) = (k x < (k y :: int))"
  shows "sorted (map k (rev (p # take (runLength cmp True p rest) rest))) \<and>
         (\<forall>x \<in> set (p # take (runLength cmp True p rest) rest). k x \<le> k p)"
  using assms
proof (induction rest arbitrary: p)
  case Nil
  show ?case by simp
next
  case (Cons c cs)
  show ?case
  proof (cases "cmp c p \<ge> 0")
    case True
    then show ?thesis by (simp add: Let_def)
  next
    case False
    with Cons.prems have lt: "k c < k p" by auto
    have ih: "sorted (map k (rev (c # take (runLength cmp True c cs) cs))) \<and>
         (\<forall>x \<in> set (c # take (runLength cmp True c cs) cs). k x \<le> k c)"
      using Cons.IH [of c] Cons.prems by simp
    have run: "p # take (runLength cmp True p (c # cs)) (c # cs) =
        p # c # take (runLength cmp True c cs) cs"
      using False by (simp add: Let_def)
    have "\<forall>x \<in> set (c # take (runLength cmp True c cs) cs). k x \<le> k p"
      using ih lt by fastforce
    then show ?thesis
      unfolding run using ih by (auto simp: sorted_append)
  qed
qed

lemma CountAndMakeRun_run:
  "CountAndMakeRun cmp (x # y # rest) =
     (let d = (cmp y x < 0); n = Suc (runLength cmp d x (y # rest)) in
      if d then (rev (take n (x # y # rest)) @ drop n (x # y # rest), n)
      else (x # y # rest, n))"
  by (simp add: Let_def)

lemma CountAndMakeRun_props:
  assumes "CountAndMakeRun cmp a = (w, n)"
  shows "mset w = mset a" and "n \<le> length a"
proof -
  have perm: "mset (rev (take m a) @ drop m a) = mset a" for m
    by (metis append_take_drop_id mset_append mset_rev)
  show "mset w = mset a"
  proof (cases "(cmp, a)" rule: CountAndMakeRun.cases)
    case (3 cmp' x y rest)
    then have a: "a = x # y # rest" by simp
    obtain d m where "CountAndMakeRun cmp a =
        (if d then (rev (take m a) @ drop m a, m) else (a, m))"
      unfolding a CountAndMakeRun_run Let_def by blast
    with assms have "w = (if d then rev (take m a) @ drop m a else a)"
      by (auto split: if_splits)
    then show ?thesis using perm by simp
  qed (use assms in auto)
  show "n \<le> length a"
  proof (cases "(cmp, a)" rule: CountAndMakeRun.cases)
    case (3 cmp' x y rest)
    then have a: "a = x # y # rest" by simp
    have "n = Suc (runLength cmp (cmp y x < 0) x (y # rest))"
      using assms unfolding a CountAndMakeRun_run Let_def
      by (auto split: if_splits simp del: runLength.simps)
    then show ?thesis using runLength_le [of cmp "cmp y x < 0" x "y # rest"] by (simp add: a)
  qed (use assms in auto)
qed

lemma CountAndMakeRun_sorted:
  assumes "CountAndMakeRun cmp a = (w, n)"
    and "\<forall>x \<in> set a. \<forall>y \<in> set a. (cmp x y < 0) = (k x < (k y :: int))"
  shows "sorted (map k (take n w))"
proof (cases "(cmp, a)" rule: CountAndMakeRun.cases)
  case (1 cmp')
  with assms show ?thesis by simp
next
  case (2 cmp' x)
  with assms show ?thesis by auto
next
  case (3 cmp' x y rest)
  then have a: "a = x # y # rest" by simp
  let ?d = "cmp y x < 0"
  let ?n = "Suc (runLength cmp ?d x (y # rest))"
  have n: "n = ?n"
    using assms(1) unfolding a CountAndMakeRun_run Let_def
    by (auto split: if_splits simp del: runLength.simps)
  have len: "?n \<le> length a" using runLength_le [of cmp ?d x "y # rest"] by (simp add: a)
  have tk: "take ?n a = x # take (runLength cmp ?d x (y # rest)) (y # rest)"
    by (simp add: a)
  have key: "\<forall>u \<in> set (x # y # rest). \<forall>v \<in> set (x # y # rest). (cmp u v < 0) = (k u < k v)"
    using assms(2) by (simp add: a)
  show ?thesis
  proof (cases ?d)
    case True
    then have w: "w = rev (take ?n a) @ drop ?n a"
      using assms(1) unfolding a CountAndMakeRun_run Let_def
      by (auto simp del: runLength.simps take_Suc_Cons drop_Suc_Cons)
    have "take ?n w = rev (take ?n a)"
      unfolding w using len by simp
    moreover have "sorted (map k (rev (x # take (runLength cmp True x (y # rest)) (y # rest))))"
      using descending_run [OF key] by blast
    ultimately show ?thesis using True unfolding n tk by simp
  next
    case False
    then have w: "w = a"
      using assms(1) unfolding a CountAndMakeRun_run Let_def
      by (auto simp del: runLength.simps)
    have "sorted (map k (x # take (runLength cmp False x (y # rest)) (y # rest)))"
      using ascending_run [OF key] .
    then show ?thesis using False unfolding n w tk by simp
  qed
qed

lemma mset_ArrayTimSort: "mset (ArrayTimSort cmp a) = mset a"
proof (cases "length a < 2")
  case True
  then show ?thesis by (simp add: ArrayTimSort_def)
next
  case False
  obtain w n where c: "CountAndMakeRun cmp a = (w, n)" by fastforce
  have "mset (take n w) + mset (drop n w) = mset w"
    by (metis append_take_drop_id mset_append)
  then show ?thesis
    using False c CountAndMakeRun_props(1) [OF c]
    by (simp add: ArrayTimSort_def mset_BinaryInsertionSort)
qed

lemma sorted_ArrayTimSort:
  assumes "\<forall>x \<in> set a. \<forall>y \<in> set a. (cmp x y < 0) = (k x < (k y :: int))"
  shows "sorted (map k (ArrayTimSort cmp a))"
proof (cases "length a < 2")
  case True
  then have "length (map k a) \<le> 1" by simp
  then have "sorted (map k a)" by (rule sorted01)
  with True show ?thesis by (simp add: ArrayTimSort_def)
next
  case False
  obtain w n where c: "CountAndMakeRun cmp a = (w, n)" by fastforce
  have "set w = set a" using CountAndMakeRun_props(1) [OF c] by (rule mset_eq_setD)
  then have key: "\<forall>x \<in> set (take n w @ drop n w). \<forall>y \<in> set (take n w @ drop n w).
      (cmp x y < 0) = (k x < k y)"
    using assms by simp
  have "sorted (map k (BinaryInsertionSort cmp (take n w) (drop n w)))"
    using sorted_BinaryInsertionSort [OF key CountAndMakeRun_sorted [OF c assms]] .
  with False c show ?thesis by (simp add: ArrayTimSort_def)
qed

lemma permutes_ArrayTimSort: "permutes ArrayTimSort"
  by (simp add: permutes_def mset_ArrayTimSort)

lemma ordersByKey_ArrayTimSort: "ordersByKey ArrayTimSort"
  unfolding ordersByKey_def
proof (intro allI impI)
  fix cmp :: "'a \<Rightarrow> 'a \<Rightarrow> int" and xs and k :: "'a \<Rightarrow> int"
  assume key: "\<forall>x \<in> set xs. \<forall>y \<in> set xs. (cmp x y < 0) = (k x < k y)"
  have "sorted_wrt (\<lambda>x y. k x \<le> k y) (ArrayTimSort cmp xs)"
    using sorted_ArrayTimSort [OF key] by (simp add: sorted_map)
  moreover have "set (ArrayTimSort cmp xs) = set xs"
    using mset_ArrayTimSort by (rule mset_eq_setD)
  ultimately show "sorted_wrt (\<lambda>x y. \<not> cmp y x < 0) (ArrayTimSort cmp xs)"
    using key by (auto elim!: sorted_wrt_mono_rel [rotated])
qed

subsection \<open>The pools an address owns\<close>

lemma pushPoolIds_eq:
  "pushPoolIds bals acc =
   acc @ map (\<lambda>b. drop (length ''gamm/pool/'') (coinMinimalDenom (currency b)))
           (filter (\<lambda>b. startsWith (coinMinimalDenom (currency b)) ''gamm/pool/'') bals)"
proof (induction bals arbitrary: acc)
  case Nil
  show ?case by simp
next
  case (Cons bal bals)
  show ?case
  proof (cases "startsWith (coinMinimalDenom (currency bal)) ''gamm/pool/''")
    case True
    then have "replace (coinMinimalDenom (currency bal)) ''gamm/pool/'' [] =
        drop (length ''gamm/pool/'') (coinMinimalDenom (currency bal))"
      using replace_prefix [of "coinMinimalDenom (currency bal)" "''gamm/pool/''" "[]"] by simp
    with True show ?thesis by (simp add: Cons.IH)
  next
    case False
    then show ?thesis by (simp add: Cons.IH)
  qed
qed

lemma set_pushPoolIds:
  "set (pushPoolIds bals []) =
   {i. \<exists>c \<in> set bals. coinMinimalDenom (currency c) = ''gamm/pool/'' @ i}"
proof -
  have "\<And>c i. (startsWith (coinMinimalDenom (currency c)) ''gamm/pool/'' \<and>
            i = drop (length ''gamm/pool/'') (coinMinimalDenom (currency c))) \<longleftrightarrow>
         coinMinimalDenom (currency c) = ''gamm/pool/'' @ i"
    by (auto simp: startsWith_iff)
  then show ?thesis
    unfolding pushPoolIds_eq by (auto simp: image_iff)
qed

lemma set_foldl_Set_add: "set (foldl Set_add acc xs) = set acc \<union> set xs"
  by (induction xs arbitrary: acc) (auto simp: Set_add_def)

lemma distinct_foldl_Set_add: "distinct acc \<Longrightarrow> distinct (foldl Set_add acc xs)"
  by (induction xs arbitrary: acc) (auto simp: Set_add_def)

lemma set_new_Set: "set (new_Set xs) = set xs"
  by (simp add: new_Set_def set_foldl_Set_add)

lemma distinct_new_Set: "distinct (new_Set xs)"
  by (simp add: new_Set_def distinct_foldl_Set_add)

lemma toNumber_below: "\<bar>n\<bar> < 2 ^ 53 \<Longrightarrow> toNumber n = Finite n"
proof -
  assume b: "\<bar>n\<bar> < 2 ^ 53"
  then have "bitlen \<bar>n\<bar> \<le> 53"
    by (simp add: bitlen_le_iff_power)
  then have e: "nat (bitlen \<bar>n\<bar> - 53) = 0" by simp
  have "(2::int) ^ 53 < 2 ^ 1024" by (rule power_strict_increasing) simp_all
  with b have big: "\<not> 2 ^ 1024 \<le> \<bar>n\<bar>" by linarith
  show ?thesis
    unfolding toNumber_def Let_def e using big by (simp del: power_numeral)
qed

lemma two53: "(2::int) ^ 53 = 9007199254740992"
  by simp

lemma toNumber_exact: "\<bar>n\<bar> \<le> 2 ^ 53 \<Longrightarrow> toNumber n = Finite n"
proof -
  assume "\<bar>n\<bar> \<le> 2 ^ 53"
  then consider "\<bar>n\<bar> < 2 ^ 53" | "n = 9007199254740992" | "n = - 9007199254740992"
    unfolding two53 by linarith
  then show ?thesis
  proof cases
    case 1
    then show ?thesis by (rule toNumber_below)
  next
    case 2
    have "toNumber 9007199254740992 = Finite 9007199254740992" by code_simp
    with 2 show ?thesis by simp
  next
    case 3
    have "toNumber (- 9007199254740992) = Finite (- 9007199254740992)" by code_simp
    with 3 show ?thesis by simp
  qed
qed

lemma numericId_parseInt:
  "numericId i \<Longrightarrow> \<exists>v. mathValue i = Some v \<and> parseInt i = Finite v"
  by (auto simp: numericId_def parseInt_def toNumber_exact split: option.splits)

lemma comparePoolIds_key:
  assumes "numericId x" and "numericId y"
  shows "(comparePoolIds x y < 0) = (the (mathValue x) < the (mathValue y))"
proof -
  from numericId_parseInt [OF assms(1)] obtain v where v: "mathValue x = Some v" "parseInt x = Finite v"
    by blast
  from numericId_parseInt [OF assms(2)] obtain w where w: "mathValue y = Some w" "parseInt y = Finite w"
    by blast
  show ?thesis by (auto simp: comparePoolIds_def v w)
qed

text \<open>
  Claim C5, as stated, asks for the ascending order of the numeric values on every
  snapshot. \<^verbatim>\<open>parseInt\<close> answers a double: the identifiers \<open>2 ^ 53 + 1\<close> and \<open>2 ^ 53\<close>
  parse to the same Number, the comparator answers 1 for them, and the sort of the
  engine leaves them as they were met, the larger identifier first.
\<close>

theorem getOwnPools_big_ids_counterexample:
  "getOwnPools ArrayTimSort bigIds ''A'' = [''9007199254740993'', ''9007199254740992''] \<and>
   mathValue ''9007199254740993'' = Some 9007199254740993 \<and>
   mathValue ''9007199254740992'' = Some 9007199254740992 \<and>
   parseInt ''9007199254740993'' = Finite 9007199254740992 \<and>
   parseInt ''9007199254740992'' = Finite 9007199254740992 \<and>
   \<not> idLe ''9007199254740993'' ''9007199254740992'' \<and>
   \<not> sorted_wrt idLe (getOwnPools ArrayTimSort bigIds ''A'')"
proof -
  have r: "getOwnPools ArrayTimSort bigIds ''A'' = [''9007199254740993'', ''9007199254740992'']"
    by code_simp
  have v: "mathValue ''9007199254740993'' = Some 9007199254740993"
    "mathValue ''9007199254740992'' = Some 9007199254740992"
    by code_simp+
  have p: "parseInt ''9007199254740993'' = Finite 9007199254740992"
    "parseInt ''9007199254740992'' = Finite 9007199254740992"
    by code_simp+
  have l: "\<not> idLe ''9007199254740993'' ''9007199254740992''"
    by (simp add: idLe_def v)
  show ?thesis
    unfolding r using v p l by simp
qed

text \<open>
  Claim C5, amended. With a sort that returns a permutation of its array and orders it
  whenever the negative answers of the comparator are the strict order of a key, the
  result of \<open>getOwnPools\<close> holds exactly the identifiers \<open>i\<close> for which a positive
  balance or a locked coin of the address has the minimal denomination \<open>gamm/pool/i\<close>;
  it holds none of them twice; and when every identifier has a numeric value of
  magnitude \<open>2 ^ 53\<close> at most, it is in ascending order of these values.
\<close>

theorem getOwnPools_distinct_sorted:
  "permutes arraySort \<and> ordersByKey arraySort \<longrightarrow>
   set (getOwnPools arraySort q a) =
     {i. \<exists>c \<in> set (positiveBalances q a) \<union> set (lockedCoins q a).
           coinMinimalDenom (currency c) = ''gamm/pool/'' @ i} \<and>
   distinct (getOwnPools arraySort q a) \<and>
   ((\<forall>i \<in> set (getOwnPools arraySort q a). numericId i) \<longrightarrow>
      sorted_wrt idLe (getOwnPools arraySort q a))"
proof (intro impI conjI)
  assume c: "permutes arraySort \<and> ordersByKey arraySort"
  let ?ids = "new_Set (pushPoolIds (positiveBalances q a @ lockedCoins q a) [])"
  have r: "getOwnPools arraySort q a = arraySort comparePoolIds ?ids"
    by (simp add: getOwnPools_def)
  have m: "mset (arraySort comparePoolIds ?ids) = mset ?ids"
    using c by (simp add: permutes_def)
  have s: "set (arraySort comparePoolIds ?ids) = set ?ids"
    using m by (rule mset_eq_setD)
  show "set (getOwnPools arraySort q a) =
     {i. \<exists>c \<in> set (positiveBalances q a) \<union> set (lockedCoins q a).
           coinMinimalDenom (currency c) = ''gamm/pool/'' @ i}"
    unfolding r s by (simp add: set_new_Set set_pushPoolIds)
  show "distinct (getOwnPools arraySort q a)"
    unfolding r using mset_eq_imp_distinct_iff [OF m] by (simp add: distinct_new_Set)
  assume n: "\<forall>i \<in> set (getOwnPools arraySort q a). numericId i"
  then have n': "\<forall>i \<in> set ?ids. numericId i"
    unfolding r s .
  have ob: "\<forall>cmp xs. \<forall>k :: string \<Rightarrow> int.
        (\<forall>x \<in> set xs. \<forall>y \<in> set xs. (cmp x y < 0) = (k x < k y)) \<longrightarrow>
        sorted_wrt (\<lambda>x y. \<not> cmp y x < 0) (arraySort cmp xs)"
    using c [THEN conjunct2] unfolding ordersByKey_def .
  have o: "sorted_wrt (\<lambda>x y. \<not> comparePoolIds y x < 0) (arraySort comparePoolIds ?ids)"
  proof (rule ob [rule_format, where k = "\<lambda>i. the (mathValue i)"])
    fix x y assume "x \<in> set ?ids" "y \<in> set ?ids"
    with n' have "numericId x" "numericId y" by blast+
    then show "(comparePoolIds x y < 0) = (the (mathValue x) < the (mathValue y))"
      by (rule comparePoolIds_key)
  qed
  have "idLe x y"
    if "x \<in> set (arraySort comparePoolIds ?ids)" "y \<in> set (arraySort comparePoolIds ?ids)"
      "\<not> comparePoolIds y x < 0" for x y
  proof -
    from that(1,2) n' have xy: "numericId x" "numericId y" unfolding s by simp_all
    from numericId_parseInt [OF xy(1)] obtain v where v: "mathValue x = Some v" by blast
    from numericId_parseInt [OF xy(2)] obtain w where w: "mathValue y = Some w" by blast
    from that(3) comparePoolIds_key [OF xy(2) xy(1)] have "v \<le> w" by (simp add: v w)
    then show ?thesis by (simp add: idLe_def v w)
  qed
  with o show "sorted_wrt idLe (getOwnPools arraySort q a)"
    unfolding r by (rule sorted_wrt_mono_rel [rotated])
qed

text \<open>
  The sort of the engine is such a sort. With it, the identifiers 2, 10, 1 and 2 again,
  met in this order, come back as 1, 2, 10: the order of the numbers, not of the
  strings.
\<close>

theorem getOwnPools_distinct_sorted_witness:
  "permutes (ArrayTimSort :: string Array_sort) \<and>
   ordersByKey (ArrayTimSort :: string Array_sort) \<and>
   getOwnPools ArrayTimSort threePools ''A'' = [''1'', ''2'', ''10''] \<and>
   numericId ''1'' \<and> numericId ''2'' \<and> numericId ''10'' \<and>
   idLe ''1'' ''2'' \<and> idLe ''2'' ''10'' \<and> \<not> idLe ''10'' ''2'' \<and>
   distinct (getOwnPools ArrayTimSort threePools ''A'') \<and>
   sorted_wrt idLe (getOwnPools ArrayTimSort threePools ''A'')"
proof -
  have r: "getOwnPools ArrayTimSort threePools ''A'' = [''1'', ''2'', ''10'']"
    by code_simp
  have n: "numericId ''1''" "numericId ''2''" "numericId ''10''"
    by code_simp+
  have l: "idLe ''1'' ''2''" "idLe ''2'' ''10''" "\<not> idLe ''10'' ''2''"
    by code_simp+
  have h: "\<forall>i \<in> set (getOwnPools ArrayTimSort threePools ''A''). numericId i"
    unfolding r using n by simp
  show ?thesis
    using r n l h permutes_ArrayTimSort [where ?'a = string]
      ordersByKey_ArrayTimSort [where ?'a = string]
      getOwnPools_distinct_sorted [of ArrayTimSort threePools "''A''"]
    by blast
qed

end
